theory Spec2Isabelle
  imports Complex_Main
begin

section \<open>Theater queueing simulation (SimpyTheaterRealPython.py)\<close>

text \<open>
  Virtual time and every quantity derived from it (delays, wait-time samples, averages)
  is modelled in exact rational arithmetic; the decimal literals of the source
  (\<open>0.2\<close>, \<open>0.05\<close>, \<open>0.4\<close>, \<open>0.6\<close>) are the rationals they denote.
\<close>

type_synonym time = rat

datatype error =
    StatisticsError | ZeroDivisionError | ValueError | InvalidDelay | ResourceMisuse

subsection \<open>Reporting helpers\<close>

text \<open>\<open>statistics.mean(data)\<close>: raises \<open>StatisticsError\<close> when \<open>data\<close> is empty.\<close>

definition statistics_mean :: "rat list \<Rightarrow> error + rat" where
  "statistics_mean data =
     (if data = [] then Inl StatisticsError
      else Inr (sum_list data / of_nat (length data)))"

text \<open>\<open>divmod(x, y)\<close> on non-integers: the floored quotient and the remainder.\<close>

definition divmod :: "rat \<Rightarrow> rat \<Rightarrow> error + rat \<times> rat" where
  "divmod x y =
     (if y = 0 then Inl ZeroDivisionError
      else Inr (of_int \<lfloor>x / y\<rfloor>, x - of_int \<lfloor>x / y\<rfloor> * y))"

definition get_average_wait_time :: "rat list \<Rightarrow> error + rat" where
  "get_average_wait_time wait_times =
     (case statistics_mean wait_times of
        Inl e \<Rightarrow> Inl e
      | Inr average_wait \<Rightarrow> Inr average_wait)"

definition calculate_wait_time :: "rat list \<Rightarrow> error + rat \<times> rat" where
  "calculate_wait_time wait_times =
     (case statistics_mean wait_times of
        Inl e \<Rightarrow> Inl e
      | Inr average_wait \<Rightarrow>
          (case divmod average_wait 1 of
             Inl e \<Rightarrow> Inl e
           | Inr (minutes, frac_minutes) \<Rightarrow>
               (let seconds = frac_minutes * 60 in Inr (minutes, seconds))))"


subsection \<open>Random draws\<close>

text \<open>
  \<open>random.random()\<close> returns a number \<open>u\<close> with \<open>0 \<le> u < 1\<close>. The draw a library call
  consumes is passed to it as the argument \<open>u\<close>.

  \<open>random.uniform(a, b)\<close> is \<open>a + (b - a) * random()\<close>.
\<close>

definition random_uniform :: "rat \<Rightarrow> rat \<Rightarrow> rat \<Rightarrow> rat" where
  "random_uniform a b u = a + (b - a) * u"

text \<open>\<open>itertools.accumulate(weights)\<close>: the running sums.\<close>

fun accumulate_from :: "rat \<Rightarrow> rat list \<Rightarrow> rat list" where
  "accumulate_from acc [] = []"
| "accumulate_from acc (w # ws) = (acc + w) # accumulate_from (acc + w) ws"

definition accumulate :: "rat list \<Rightarrow> rat list" where
  "accumulate weights = accumulate_from 0 weights"

text \<open>
  \<open>bisect.bisect(a, x, lo, hi)\<close>: binary search for the insertion point to the right of \<open>x\<close>.
  Every index read is below \<open>hi\<close>.
\<close>

function bisect :: "rat list \<Rightarrow> rat \<Rightarrow> nat \<Rightarrow> nat \<Rightarrow> nat" where
  "bisect a x lo hi =
     (if lo < hi then
        (let mid = (lo + hi) div 2
         in if x < a ! mid then bisect a x lo mid else bisect a x (mid + 1) hi)
      else lo)"
  by pat_completeness auto
termination
  by (relation "measure (\<lambda>(a, x, lo, hi). hi - lo)") auto

declare bisect.simps [simp del]

text \<open>
  \<open>random.choices(population, weights, k=1)\<close>: one element of \<open>population\<close>, chosen by
  bisecting the cumulative weights at \<open>random() * total\<close>, as a one-element list.
\<close>

definition random_choices :: "'a list \<Rightarrow> rat list \<Rightarrow> rat \<Rightarrow> error + 'a list" where
  "random_choices population weights u =
     (let n = length population;
          cum_weights = accumulate weights
      in if length cum_weights \<noteq> n then Inl ValueError
         else if cum_weights = [] then Inl ValueError
         else (let total_weight = last cum_weights
               in if total_weight \<le> 0 then Inl ValueError
                  else (let hi = n - 1
                        in Inr [population ! bisect cum_weights (u * total_weight) 0 hi])))"

subsection \<open>The theater and its processes\<close>

text \<open>
  A generator is modelled by the state it is suspended in and a function that resumes it:
  the function returns what the generator does to its environment until the next
  \<open>yield\<close> (or until it ends), and the state it is left in.
\<close>

datatype resource = Cashier | Server | Usher

datatype station = Purchase_ticket | Check_ticket | Sell_food

datatype effect =
    Request resource
  | Release resource
  | Process_station station
  | Process_moviegoer int
  | Timeout time
  | Append time

text \<open>How a suspended generator is resumed: with a value, with an exception raised at
  the \<open>yield\<close> it is suspended at, or by closing it (\<open>GeneratorExit\<close> is raised at the
  \<open>yield\<close>; this is what happens to a generator that is discarded while suspended).\<close>

datatype sent = Send | Throw | Close

text \<open>\<open>simpy.Resource(env, capacity)\<close> raises \<open>ValueError\<close> unless the capacity is positive.
  A resource is kept as its capacity.\<close>

definition Resource :: "int \<Rightarrow> error + int" where
  "Resource capacity = (if capacity \<le> 0 then Inl ValueError else Inr capacity)"

text \<open>Class \<open>Theater\<close>: its constructor makes the three resources in the order cashier,
  server, usher, and fails with the first of them that fails.\<close>

record theater =
  cashier :: int
  server :: int
  usher :: int

definition Theater :: "int \<Rightarrow> int \<Rightarrow> int \<Rightarrow> error + theater" where
  "Theater num_cashiers num_servers num_ushers =
     (case Resource num_cashiers of
        Inl e \<Rightarrow> Inl e
      | Inr the_cashier \<Rightarrow>
          (case Resource num_servers of
             Inl e \<Rightarrow> Inl e
           | Inr the_server \<Rightarrow>
               (case Resource num_ushers of
                  Inl e \<Rightarrow> Inl e
                | Inr the_usher \<Rightarrow>
                    Inr \<lparr>cashier = the_cashier, server = the_server,
                         usher = the_usher\<rparr>)))"

text \<open>The three station generators each yield one timeout; this is the event they yield.\<close>

definition purchase_ticket :: "rat \<Rightarrow> effect" where
  "purchase_ticket u = Timeout (random_uniform 1 3 u)"

definition check_ticket :: effect where
  "check_ticket = Timeout (5 / 100)"

definition sell_food :: "rat \<Rightarrow> effect" where
  "sell_food u = Timeout (random_uniform 1 5 u)"

definition food_list :: "string list" where
  "food_list = [''food'', ''no_food'']"

text \<open>
  \<open>go_to_movies\<close>. The states are: not yet started; suspended at one of the six \<open>yield\<close>s
  (each carries the local \<open>arrival_time\<close>); returned; ended by an exception. Leaving a
  \<open>with\<close> block, normally or by an exception, releases its request and lets the
  exception propagate. The one exception that does not release is \<open>GeneratorExit\<close>:
  \<open>simpy\<close>'s request skips the release when the generator is being closed, so closing
  a generator ends it with no effect at all.
\<close>

datatype gm_state =
    Created
  | At_cashier_request time
  | At_purchase_ticket time
  | At_usher_request time
  | At_check_ticket time
  | At_server_request time
  | At_sell_food time
  | Finished
  | Raised

fun go_to_movies :: "gm_state \<Rightarrow> sent \<Rightarrow> time \<Rightarrow> rat \<Rightarrow> effect list \<times> gm_state" where
  "go_to_movies Created Send now u =
     (let arrival_time = now in ([Request Cashier], At_cashier_request arrival_time))"
| "go_to_movies Created Throw now u = ([], Raised)"
| "go_to_movies Created Close now u = ([], Raised)"
| "go_to_movies (At_cashier_request arrival_time) Send now u =
     ([Process_station Purchase_ticket], At_purchase_ticket arrival_time)"
| "go_to_movies (At_cashier_request arrival_time) Throw now u = ([Release Cashier], Raised)"
| "go_to_movies (At_cashier_request arrival_time) Close now u = ([], Raised)"
| "go_to_movies (At_purchase_ticket arrival_time) Send now u =
     ([Release Cashier, Request Usher], At_usher_request arrival_time)"
| "go_to_movies (At_purchase_ticket arrival_time) Throw now u = ([Release Cashier], Raised)"
| "go_to_movies (At_purchase_ticket arrival_time) Close now u = ([], Raised)"
| "go_to_movies (At_usher_request arrival_time) Send now u =
     ([Process_station Check_ticket], At_check_ticket arrival_time)"
| "go_to_movies (At_usher_request arrival_time) Throw now u = ([Release Usher], Raised)"
| "go_to_movies (At_usher_request arrival_time) Close now u = ([], Raised)"
| "go_to_movies (At_check_ticket arrival_time) Send now u =
     (case random_choices food_list [4 / 10, 6 / 10] u of
        Inl e \<Rightarrow> ([Release Usher], Raised)
      | Inr choice \<Rightarrow>
          if ''food'' \<in> set choice
          then ([Release Usher, Request Server], At_server_request arrival_time)
          else ([Release Usher, Append (now - arrival_time)], Finished))"
| "go_to_movies (At_check_ticket arrival_time) Throw now u = ([Release Usher], Raised)"
| "go_to_movies (At_check_ticket arrival_time) Close now u = ([], Raised)"
| "go_to_movies (At_server_request arrival_time) Send now u =
     ([Process_station Sell_food], At_sell_food arrival_time)"
| "go_to_movies (At_server_request arrival_time) Throw now u = ([Release Server], Raised)"
| "go_to_movies (At_server_request arrival_time) Close now u = ([], Raised)"
| "go_to_movies (At_sell_food arrival_time) Send now u =
     ([Release Server, Append (now - arrival_time)], Finished)"
| "go_to_movies (At_sell_food arrival_time) Throw now u = ([Release Server], Raised)"
| "go_to_movies (At_sell_food arrival_time) Close now u = ([], Raised)"
| "go_to_movies Finished inp now u = ([], Finished)"
| "go_to_movies Raised inp now u = ([], Raised)"

text \<open>A moviegoer resumed several times: each resumption has its input, the clock
  \<open>env.now\<close> at that moment and the random draw available to it.\<close>

type_synonym resumption = "sent \<times> time \<times> rat"

fun run_moviegoer :: "gm_state \<Rightarrow> resumption list \<Rightarrow> effect list \<times> gm_state" where
  "run_moviegoer st [] = ([], st)"
| "run_moviegoer st ((inp, now, u) # rs) =
     (let (effs, st') = go_to_movies st inp now u;
          (effs', st'') = run_moviegoer st' rs
      in (effs @ effs', st''))"

text \<open>The clock at the resumption during which the generator returned, if it did.\<close>

fun completed_at :: "gm_state \<Rightarrow> resumption list \<Rightarrow> time option" where
  "completed_at st [] = None"
| "completed_at st ((inp, now, u) # rs) =
     (let st' = snd (go_to_movies st inp now u)
      in if st \<noteq> Finished \<and> st' = Finished then Some now else completed_at st' rs)"

text \<open>The values a list of effects appends to \<open>wait_times\<close>.\<close>

fun samples :: "effect list \<Rightarrow> time list" where
  "samples [] = []"
| "samples (Append d # es) = d # samples es"
| "samples (e # es) = samples es"

text \<open>The \<open>with\<close> block the generator is suspended in, if any.\<close>

fun holding :: "gm_state \<Rightarrow> resource option" where
  "holding (At_cashier_request a) = Some Cashier"
| "holding (At_purchase_ticket a) = Some Cashier"
| "holding (At_usher_request a) = Some Usher"
| "holding (At_check_ticket a) = Some Usher"
| "holding (At_server_request a) = Some Server"
| "holding (At_sell_food a) = Some Server"
| "holding st = None"

text \<open>The local \<open>arrival_time\<close> of a suspended generator.\<close>

fun arrival_time_of :: "gm_state \<Rightarrow> time option" where
  "arrival_time_of (At_cashier_request a) = Some a"
| "arrival_time_of (At_purchase_ticket a) = Some a"
| "arrival_time_of (At_usher_request a) = Some a"
| "arrival_time_of (At_check_ticket a) = Some a"
| "arrival_time_of (At_server_request a) = Some a"
| "arrival_time_of (At_sell_food a) = Some a"
| "arrival_time_of st = None"


text \<open>The draw that \<open>random.choices\<close> consumed in a run, if the run reached the call.\<close>

fun decision_draw :: "gm_state \<Rightarrow> resumption list \<Rightarrow> rat option" where
  "decision_draw st [] = None"
| "decision_draw (At_check_ticket a) ((Send, now, u) # rs) = Some u"
| "decision_draw st ((inp, now, u) # rs) =
     decision_draw (snd (go_to_movies st inp now u)) rs"

text \<open>The effects that involve the server pool.\<close>

definition server_effects :: "effect list \<Rightarrow> effect list" where
  "server_effects effs =
     filter (\<lambda>e. e = Request Server \<or> e = Release Server \<or> e = Process_station Sell_food)
       effs"

text \<open>The event a station's generator yields when \<open>env.process\<close> starts it.\<close>

fun station_event :: "station \<Rightarrow> rat \<Rightarrow> effect" where
  "station_event Purchase_ticket u = purchase_ticket u"
| "station_event Check_ticket u = check_ticket"
| "station_event Sell_food u = sell_food u"

text \<open>
  The global list \<open>wait_times\<close> and the moviegoer processes of one run. The environment
  may start a process or resume any process, with any input, at any clock value.
\<close>

record simulation =
  processes :: "gm_state list"
  wait_times :: "time list"

datatype sim_event = Spawn | Resume nat sent time rat

definition initial :: simulation where
  "initial = \<lparr>processes = [], wait_times = []\<rparr>"

fun sim_step :: "simulation \<Rightarrow> sim_event \<Rightarrow> simulation" where
  "sim_step s Spawn = s\<lparr>processes := processes s @ [Created]\<rparr>"
| "sim_step s (Resume i inp now u) =
     (if i < length (processes s) then
        (let (effs, st') = go_to_movies (processes s ! i) inp now u
         in s\<lparr>processes := (processes s)[i := st'],
               wait_times := wait_times s @ samples effs\<rparr>)
      else s)"

definition sim_run :: "simulation \<Rightarrow> sim_event list \<Rightarrow> simulation" where
  "sim_run s evs = foldl sim_step s evs"

definition completed :: "simulation \<Rightarrow> nat" where
  "completed s = length (filter (\<lambda>st. st = Finished) (processes s))"

text \<open>
  \<open>run_theater\<close>: not yet started (with its arguments), suspended at
  \<open>yield env.timeout(0.2)\<close> with the locals \<open>theater\<close> and \<open>moviegoer\<close>, or ended by the
  exception of the \<open>Theater\<close> constructor. The loop \<open>while True\<close> has no exit, so there
  is no state after it.
\<close>

datatype rt_state =
    RT_created int int int
  | RT_timeout theater int
  | RT_raised error

definition py_range :: "nat \<Rightarrow> int list" where
  "py_range n = map int [0..<n]"

fun run_theater :: "rt_state \<Rightarrow> effect list \<times> rt_state" where
  "run_theater (RT_created num_cashiers num_servers num_ushers) =
     (case Theater num_cashiers num_servers num_ushers of
        Inl e \<Rightarrow> ([], RT_raised e)
      | Inr theater \<Rightarrow>
          (let moviegoer = last (py_range 5)
           in (map Process_moviegoer (py_range 5) @ [Timeout (2 / 10)],
               RT_timeout theater moviegoer)))"
| "run_theater (RT_timeout theater moviegoer) =
     (let moviegoer = moviegoer + 1
      in ([Process_moviegoer moviegoer, Timeout (2 / 10)], RT_timeout theater moviegoer))"
| "run_theater (RT_raised e) = ([], RT_raised e)"

text \<open>The generator resumed \<open>n\<close> times in a row.\<close>

fun resume_theater :: "nat \<Rightarrow> rt_state \<Rightarrow> effect list \<times> rt_state" where
  "resume_theater 0 st = ([], st)"
| "resume_theater (Suc n) st =
     (let (effs, st') = run_theater st;
          (effs', st'') = resume_theater n st'
      in (effs @ effs', st''))"

subsection \<open>The simulation engine\<close>

text \<open>
  Modelled from the spec: the Resource Pool (\<open>simpy.Resource\<close>), which the sources only
  call. A pool has a fixed capacity, a count of held units and a FIFO queue of
  pending acquire requests, each named by the number of its request.
\<close>

record pool =
  capacity :: int
  held_count :: int
  wait_queue :: "nat list"

text \<open>Modelled from the spec: a pool is created with its capacity, no unit held and
  nobody waiting.\<close>

definition new_pool :: "int \<Rightarrow> pool" where
  "new_pool c = \<lparr>capacity = c, held_count = 0, wait_queue = []\<rparr>"

text \<open>
  Modelled from the spec: \<open>acquire\<close> of the Resource Pool. If \<open>held_count < capacity\<close> the
  request is granted at once (\<open>True\<close>); otherwise it is put at the tail of the queue.
\<close>

definition acquire :: "pool \<Rightarrow> nat \<Rightarrow> bool \<times> pool" where
  "acquire p r =
     (if held_count p < capacity p
      then (True, p\<lparr>held_count := held_count p + 1\<rparr>)
      else (False, p\<lparr>wait_queue := wait_queue p @ [r]\<rparr>))"

text \<open>
  Modelled from the spec: \<open>release\<close> of the Resource Pool. A release with no unit held is
  the contract violation \<open>ResourceMisuse\<close>. Otherwise \<open>held_count\<close> drops by one, and if
  a request waits, the head of the queue is removed and granted (\<open>held_count\<close> goes up
  by one again); the result names the request granted.
\<close>

definition release :: "pool \<Rightarrow> error + nat option \<times> pool" where
  "release p =
     (if held_count p \<le> 0 then Inl ResourceMisuse
      else (let p1 = p\<lparr>held_count := held_count p - 1\<rparr>
            in case wait_queue p1 of
                 [] \<Rightarrow> Inr (None, p1)
               | r # waiting \<Rightarrow>
                   Inr (Some r, p1\<lparr>held_count := held_count p1 + 1, wait_queue := waiting\<rparr>)))"

text \<open>Modelled from the spec: runs of acquire and release operations on a pool, with
  the log of what each did. A misuse is fatal: it ends the run.\<close>

datatype pool_op = Op_acquire nat | Op_release

datatype pool_event = Granted nat | Enqueued nat | Handed_over nat | Freed

fun pool_step :: "pool \<Rightarrow> pool_op \<Rightarrow> error + pool_event \<times> pool" where
  "pool_step p (Op_acquire r) =
     (case acquire p r of
        (True, p') \<Rightarrow> Inr (Granted r, p')
      | (False, p') \<Rightarrow> Inr (Enqueued r, p'))"
| "pool_step p Op_release =
     (case release p of
        Inl e \<Rightarrow> Inl e
      | Inr (None, p') \<Rightarrow> Inr (Freed, p')
      | Inr (Some r, p') \<Rightarrow> Inr (Handed_over r, p'))"

fun pool_run :: "pool \<Rightarrow> pool_op list \<Rightarrow> error + pool_event list \<times> pool" where
  "pool_run p [] = Inr ([], p)"
| "pool_run p (x # xs) =
     (case pool_step p x of
        Inl e \<Rightarrow> Inl e
      | Inr (ev, p') \<Rightarrow>
          (case pool_run p' xs of
             Inl e \<Rightarrow> Inl e
           | Inr (evs, p'') \<Rightarrow> Inr (ev # evs, p'')))"

text \<open>Every state a run goes through, up to its end or to the first misuse.\<close>

fun pool_states :: "pool \<Rightarrow> pool_op list \<Rightarrow> pool list" where
  "pool_states p [] = [p]"
| "pool_states p (x # xs) =
     p # (case pool_step p x of Inl e \<Rightarrow> [] | Inr (ev, p') \<Rightarrow> pool_states p' xs)"

text \<open>The requests a log enqueued, and those it granted from the queue, in order.\<close>

fun enqueued :: "pool_event list \<Rightarrow> nat list" where
  "enqueued [] = []"
| "enqueued (Enqueued r # evs) = r # enqueued evs"
| "enqueued (ev # evs) = enqueued evs"

fun handed_over :: "pool_event list \<Rightarrow> nat list" where
  "handed_over [] = []"
| "handed_over (Handed_over r # evs) = r # handed_over evs"
| "handed_over (ev # evs) = handed_over evs"

text \<open>
  Modelled from the spec: the Scheduler (\<open>simpy.Environment\<close>), which the sources only
  call. It owns the clock and the event queue, ordered by scheduled time and then by
  sequence number, and knows which processes are suspended.
\<close>

record event =
  scheduled_time :: time
  sequence_id :: nat
  process :: nat

datatype process_state = Pending | Running | Suspended | Terminated

record scheduler =
  clock :: time
  event_queue :: "event list"
  next_sequence_id :: nat
  state_of :: "nat \<Rightarrow> process_state"

text \<open>Modelled from the spec: insertion into the event queue, before the first event
  that is later in the order of (scheduled time, sequence number).\<close>

fun enqueue :: "event \<Rightarrow> event list \<Rightarrow> event list" where
  "enqueue e [] = [e]"
| "enqueue e (x # xs) =
     (if scheduled_time e < scheduled_time x \<or>
         (scheduled_time e = scheduled_time x \<and> sequence_id e < sequence_id x)
      then e # x # xs
      else x # enqueue e xs)"

text \<open>
  Modelled from the spec: \<open>schedule_timeout(process, delay)\<close> of the Scheduler. A negative
  delay fails with \<open>InvalidDelay\<close>; otherwise an event at \<open>clock + delay\<close> enters the
  queue and the process is suspended. The result is the error, if any, and the
  scheduler after the call.
\<close>

definition schedule_timeout :: "scheduler \<Rightarrow> nat \<Rightarrow> time \<Rightarrow> error option \<times> scheduler" where
  "schedule_timeout s p delay =
     (if delay < 0 then (Some InvalidDelay, s)
      else (None,
            s\<lparr>event_queue :=
                 enqueue \<lparr>scheduled_time = clock s + delay,
                          sequence_id = next_sequence_id s,
                          process = p\<rparr> (event_queue s),
              next_sequence_id := next_sequence_id s + 1,
              state_of := (state_of s)(p := Suspended)\<rparr>))"

section \<open>Properties\<close>

subsection \<open>The moviegoer process\<close>

lemma bisect_two:
  "bisect [c0, c1] x 0 (Suc 0) = (if x < c0 then 0 else 1)"
  by (simp add: bisect.simps [of _ _ 0 "Suc 0"] bisect.simps [of _ _ 0 0]
      bisect.simps [of _ _ "Suc 0" "Suc 0"])

lemma choices_food:
  "random_choices food_list [2 / 5, 3 / 5] u =
     Inr [if u * 5 < 2 then ''food'' else ''no_food'']"
  by (simp add: random_choices_def food_list_def accumulate_def bisect_two)

lemma check_ticket_send:
  "go_to_movies (At_check_ticket a) Send now u =
     (if u * 5 < 2 then ([Release Usher, Request Server], At_server_request a)
      else ([Release Usher, Append (now - a)], Finished))"
  by (simp add: choices_food)

lemma run_Finished: "run_moviegoer Finished rs = ([], Finished)"
  by (induction rs) auto

lemma run_Raised: "run_moviegoer Raised rs = ([], Raised)"
  by (induction rs) auto

lemma samples_append: "samples (xs @ ys) = samples xs @ samples ys"
  by (induction xs rule: samples.induct) auto

lemma step_sample:
  assumes "arrival_time_of st = Some a" "go_to_movies st inp now u = (effs, st')"
  shows "(arrival_time_of st' = Some a \<and> samples effs = []) \<or>
         (st' = Finished \<and> samples effs = [now - a]) \<or>
         (st' = Raised \<and> samples effs = [])"
  using assms by (cases st; cases inp) (auto simp: choices_food split: if_splits)

lemma completion_from:
  "arrival_time_of st = Some a \<Longrightarrow> run_moviegoer st rs = (effs, st') \<Longrightarrow>
     (if st' = Finished
      then \<exists>t1. completed_at st rs = Some t1 \<and> samples effs = [t1 - a]
      else samples effs = [])"
proof (induction rs arbitrary: st effs st')
  case Nil
  then show ?case by auto
next
  case (Cons r rs)
  obtain inp now u where r: "r = (inp, now, u)" by (cases r)
  obtain e1 s1 where step: "go_to_movies st inp now u = (e1, s1)" by force
  obtain e2 s2 where rest: "run_moviegoer s1 rs = (e2, s2)" by force
  have effs: "effs = e1 @ e2" and st': "st' = s2"
    using Cons.prems(2) r step rest by auto
  have stF: "st \<noteq> Finished" using Cons.prems(1) by auto
  from step_sample [OF Cons.prems(1) step]
  consider (go) "arrival_time_of s1 = Some a" "samples e1 = []"
    | (fin) "s1 = Finished" "samples e1 = [now - a]"
    | (exc) "s1 = Raised" "samples e1 = []" by blast
  then show ?case
  proof cases
    case go
    then have "s1 \<noteq> Finished" by auto
    with Cons.IH [OF go(1) rest] go(2) show ?thesis
      by (simp add: r step effs st' samples_append stF)
  next
    case fin
    with rest have "e2 = []" "s2 = Finished" by (simp_all add: run_Finished)
    with fin show ?thesis by (simp add: r step effs st' stF)
  next
    case exc
    with rest have "e2 = []" "s2 = Raised" by (simp_all add: run_Raised)
    with exc show ?thesis by (simp add: r step effs st')
  qed
qed

lemma run_Created:
  assumes "run_moviegoer Created rs = (effs, st)"
  shows "if st = Finished
         then \<exists>t0 u0 rs' t1. rs = (Send, t0, u0) # rs' \<and>
                completed_at Created rs = Some t1 \<and> samples effs = [t1 - t0]
         else samples effs = []"
proof (cases rs)
  case Nil
  with assms show ?thesis by auto
next
  case (Cons r rs')
  obtain inp now u where r: "r = (inp, now, u)" by (cases r)
  show ?thesis
  proof (cases inp)
    case Send
    obtain e2 s2 where rest: "run_moviegoer (At_cashier_request now) rs' = (e2, s2)" by force
    with assms Cons r Send have effs: "effs = Request Cashier # e2" and st: "st = s2" by auto
    from completion_from [OF _ rest, of now] show ?thesis
      by (auto simp: Cons r Send effs st)
  next
    case Throw
    with assms Cons r show ?thesis by (auto simp: run_Raised)
  next
    case Close
    with assms Cons r show ?thesis by (auto simp: run_Raised)
  qed
qed

lemma filter_update_count:
  "i < length xs \<Longrightarrow>
     length (filter P (xs[i := y])) + (if P (xs ! i) then 1 else 0) =
     length (filter P xs) + (if P y then 1 else 0)"
proof (induction xs arbitrary: i)
  case Nil
  then show ?case by simp
next
  case (Cons x xs)
  then show ?case by (cases i) auto
qed

lemma step_count:
  "go_to_movies st inp now u = (effs, st') \<Longrightarrow>
     length (samples effs) + (if st = Finished then 1 else 0) = (if st' = Finished then 1 else 0)"
  by (cases st; cases inp) (auto simp: choices_food split: if_splits)

lemma sim_step_count:
  assumes "length (wait_times s) = completed s"
  shows "length (wait_times (sim_step s ev)) = completed (sim_step s ev)"
proof (cases ev)
  case Spawn
  with assms show ?thesis by (simp add: completed_def)
next
  case (Resume i inp now u)
  show ?thesis
  proof (cases "i < length (processes s)")
    case True
    obtain effs st' where step: "go_to_movies (processes s ! i) inp now u = (effs, st')"
      by force
    from filter_update_count [OF True, of "\<lambda>st. st = Finished" st'] step_count [OF step] assms
    show ?thesis using True by (simp add: Resume step completed_def)
  next
    case False
    with assms show ?thesis by (simp add: Resume)
  qed
qed

lemma sim_run_count:
  "length (wait_times s) = completed s \<Longrightarrow>
     length (wait_times (sim_run s evs)) = completed (sim_run s evs)"
  unfolding sim_run_def
  by (induction evs arbitrary: s) (simp_all add: sim_step_count)

text \<open>
  Claim C2. A moviegoer that runs to completion appends exactly one sample to
  \<open>wait_times\<close>, the clock at the resumption in which it returned minus the clock at its
  first resumption (its arrival); a moviegoer that has not completed has appended none.
  Hence, however the environment interleaves spawns and resumptions, the number of
  samples equals the number of completed moviegoers.
\<close>

theorem moviegoer_wait_time_sample:
  "(run_moviegoer Created rs = (effs, st) \<longrightarrow>
      (if st = Finished
       then \<exists>t0 u0 rs' t1. rs = (Send, t0, u0) # rs' \<and>
              completed_at Created rs = Some t1 \<and> samples effs = [t1 - t0]
       else samples effs = [])) \<and>
   length (wait_times (sim_run initial evs)) = completed (sim_run initial evs)"
proof (intro conjI impI)
  assume "run_moviegoer Created rs = (effs, st)"
  then show "if st = Finished
       then \<exists>t0 u0 rs' t1. rs = (Send, t0, u0) # rs' \<and>
              completed_at Created rs = Some t1 \<and> samples effs = [t1 - t0]
       else samples effs = []"
    by (rule run_Created)
next
  have "length (wait_times initial) = completed initial"
    by (simp add: initial_def completed_def)
  then show "length (wait_times (sim_run initial evs)) = completed (sim_run initial evs)"
    by (rule sim_run_count)
qed

theorem moviegoer_wait_time_sample_witness:
  "run_moviegoer Created
     [(Send, 1, 0), (Send, 2, 0), (Send, 4, 0), (Send, 5, 0), (Send, 11 / 2, 1 / 2)] =
     ([Request Cashier, Process_station Purchase_ticket, Release Cashier, Request Usher,
       Process_station Check_ticket, Release Usher, Append (9 / 2)], Finished) \<and>
   completed_at Created
     [(Send, 1, 0), (Send, 2, 0), (Send, 4, 0), (Send, 5, 0), (Send, 11 / 2, 1 / 2)] =
     Some (11 / 2) \<and>
   length (wait_times (sim_run initial [Spawn, Resume 0 Send 0 0])) = 0 \<and>
   completed (sim_run initial [Spawn, Resume 0 Send 0 0]) = 0"
proof -
  have run: "run_moviegoer Created
     [(Send, 1, 0), (Send, 2, 0), (Send, 4, 0), (Send, 5, 0), (Send, 11 / 2, 1 / 2)] =
     ([Request Cashier, Process_station Purchase_ticket, Release Cashier, Request Usher,
       Process_station Check_ticket, Release Usher, Append (9 / 2)], Finished)"
    by (simp add: choices_food)
  have "length (wait_times (sim_run initial [Spawn, Resume 0 Send 0 0])) = 0"
    by (simp add: sim_run_def initial_def)
  with run moviegoer_wait_time_sample
    [of "[(Send, 1, 0), (Send, 2, 0), (Send, 4, 0), (Send, 5, 0), (Send, 11 / 2, 1 / 2)]"
        "[Request Cashier, Process_station Purchase_ticket, Release Cashier, Request Usher,
       Process_station Check_ticket, Release Usher, Append (9 / 2)]" Finished
        "[Spawn, Resume 0 Send 0 0]"]
  show ?thesis by auto
qed










lemma decision_draw_Finished: "decision_draw Finished rs = None"
  by (induction rs) auto

lemma decision_draw_Raised: "decision_draw Raised rs = None"
  by (induction rs) auto

lemma server_effects_append:
  "server_effects (xs @ ys) = server_effects xs @ server_effects ys"
  by (simp add: server_effects_def)

lemma choices_food_iff:
  "random_choices food_list [4 / 10, 6 / 10] u =
     Inr [if u < 4 / 10 then ''food'' else ''no_food'']"
  by (simp add: choices_food)

lemma sell_food_finish:
  assumes "run_moviegoer (At_sell_food a) rs = (effs, Finished)"
  shows "server_effects effs = [Release Server]"
proof (cases rs)
  case Nil
  with assms show ?thesis by simp
next
  case (Cons x rs')
  obtain inp now u where x: "x = (inp, now, u)" by (cases x)
  from assms show ?thesis
    unfolding Cons x
    by (cases inp) (auto simp: run_Finished run_Raised server_effects_def)
qed

lemma server_request_finish:
  assumes "run_moviegoer (At_server_request a) rs = (effs, Finished)"
  shows "server_effects effs = [Process_station Sell_food, Release Server]"
proof (cases rs)
  case Nil
  with assms show ?thesis by simp
next
  case (Cons x rs')
  obtain inp now u where x: "x = (inp, now, u)" by (cases x)
  show ?thesis
  proof (cases inp)
    case Send
    obtain e2 s2 where rest: "run_moviegoer (At_sell_food a) rs' = (e2, s2)" by force
    with assms have "effs = Process_station Sell_food # e2" "s2 = Finished"
      by (simp_all add: Cons x Send)
    with sell_food_finish [of a rs' e2] rest show ?thesis
      by (simp add: server_effects_def)
  next
    case Throw
    with assms show ?thesis by (simp add: Cons x run_Raised)
  next
    case Close
    with assms show ?thesis by (simp add: Cons x run_Raised)
  qed
qed

lemma food_decision:
  assumes "holding st \<noteq> Some Server" "run_moviegoer st rs = (effs, st')"
  shows "(Request Server \<in> set effs \<longleftrightarrow> (\<exists>u. decision_draw st rs = Some u \<and> u * 5 < 2)) \<and>
         (\<forall>u. decision_draw st rs = Some u \<and> \<not> u * 5 < 2 \<longrightarrow> st' = Finished) \<and>
         (\<not> (\<exists>u. decision_draw st rs = Some u \<and> u * 5 < 2) \<longrightarrow> server_effects effs = []) \<and>
         ((\<exists>u. decision_draw st rs = Some u \<and> u * 5 < 2) \<and> st' = Finished \<longrightarrow>
            server_effects effs =
              [Request Server, Process_station Sell_food, Release Server])"
  using assms
proof (induction rs arbitrary: st effs)
  case Nil
  then show ?case by (auto simp: server_effects_def)
next
  case (Cons x rs)
  obtain inp now u where x: "x = (inp, now, u)" by (cases x)
  obtain e1 s1 where step: "go_to_movies st inp now u = (e1, s1)" by force
  obtain e2 s2 where rest: "run_moviegoer s1 rs = (e2, s2)" by force
  have effs: "effs = e1 @ e2" and st': "st' = s2"
    using Cons.prems x step rest by auto
  show ?case
  proof (cases "(\<exists>a. st = At_check_ticket a) \<and> inp = Send")
    case True
    then obtain a where st: "st = At_check_ticket a" and inp: "inp = Send" by blast
    show ?thesis
    proof (cases "u * 5 < 2")
      case True
      with step st inp have e1: "e1 = [Release Usher, Request Server]"
        and s1: "s1 = At_server_request a"
        by (simp_all add: choices_food)
      have "server_effects e2 = [Process_station Sell_food, Release Server]"
        if "s2 = Finished"
        using server_request_finish [of a rs e2] rest s1 that by simp
      with True e1 show ?thesis
        by (simp add: x st inp effs st' server_effects_def)
    next
      case False
      with step st inp have e1: "e1 = [Release Usher, Append (now - a)]" and "s1 = Finished"
        by (simp_all add: choices_food)
      with rest have "e2 = []" "s2 = Finished" by (simp_all add: run_Finished)
      with False e1 show ?thesis by (simp add: x st inp effs st' server_effects_def)
    qed
  next
    case False
    then have dd: "decision_draw st (x # rs) = decision_draw s1 rs"
      using step by (cases st; cases inp) (simp_all add: x)
    from False Cons.prems(1) step
    have e1: "Request Server \<notin> set e1" "server_effects e1 = []" and s1: "holding s1 \<noteq> Some Server"
      by (cases st; cases inp; auto simp: server_effects_def)+
    from Cons.IH [OF s1 rest [folded st']] e1 show ?thesis
      by (simp add: dd effs server_effects_append)
  qed
qed

text \<open>
  Claim C8. In every run of a moviegoer the server is requested if and only if the run
  reached the call of \<open>random.choices\<close> and the call returned \<open>food\<close>; when it returned
  \<open>no_food\<close> the moviegoer has completed without any effect on the server pool. With the
  weights 0.4 and 0.6 the call returns \<open>food\<close> exactly when its draw from \<open>[0, 1)\<close> is
  below 0.4, and \<open>no_food\<close> otherwise. The food sale is started only after \<open>food\<close>, and
  without \<open>food\<close> nothing touches the server pool. Once the server request is granted
  the moviegoer starts \<open>sell_food\<close>; so a moviegoer that has completed has run the food
  sale if and only if the call returned \<open>food\<close>, and then its effects on the server pool
  are the request, the food sale and the release, in this order.
\<close>

theorem server_requested_iff_food:
  assumes "run_moviegoer Created rs = (effs, st)"
  shows "(Request Server \<in> set effs \<longleftrightarrow>
            (\<exists>u. decision_draw Created rs = Some u \<and>
                 random_choices food_list [4 / 10, 6 / 10] u = Inr [''food''])) \<and>
         (\<forall>u. decision_draw Created rs = Some u \<and>
              random_choices food_list [4 / 10, 6 / 10] u = Inr [''no_food''] \<longrightarrow>
              st = Finished \<and> server_effects effs = []) \<and>
         (\<forall>u. random_choices food_list [4 / 10, 6 / 10] u =
              Inr [if u < 4 / 10 then ''food'' else ''no_food'']) \<and>
         (Process_station Sell_food \<in> set effs \<longrightarrow>
            (\<exists>u. decision_draw Created rs = Some u \<and>
                 random_choices food_list [4 / 10, 6 / 10] u = Inr [''food''])) \<and>
         (\<not> (\<exists>u. decision_draw Created rs = Some u \<and>
                 random_choices food_list [4 / 10, 6 / 10] u = Inr [''food'']) \<longrightarrow>
            server_effects effs = []) \<and>
         (\<forall>a now v. go_to_movies (At_server_request a) Send now v =
            ([Process_station Sell_food], At_sell_food a)) \<and>
         (st = Finished \<longrightarrow>
            (Process_station Sell_food \<in> set effs \<longleftrightarrow>
               (\<exists>u. decision_draw Created rs = Some u \<and>
                    random_choices food_list [4 / 10, 6 / 10] u = Inr [''food''])) \<and>
            (server_effects effs = [Request Server, Process_station Sell_food, Release Server]
               \<longleftrightarrow>
               (\<exists>u. decision_draw Created rs = Some u \<and>
                    random_choices food_list [4 / 10, 6 / 10] u = Inr [''food''])))"
proof -
  let ?F = "\<exists>u. decision_draw Created rs = Some u \<and> u * 5 < 2"
  have c: "random_choices food_list [4 / 10, 6 / 10] u = Inr [''food''] \<longleftrightarrow> u * 5 < 2"
    "random_choices food_list [4 / 10, 6 / 10] u = Inr [''no_food''] \<longleftrightarrow> \<not> u * 5 < 2" for u
    by (simp_all add: choices_food)
  have "holding Created \<noteq> Some Server" by simp
  from food_decision [OF this assms]
  have 1: "Request Server \<in> set effs \<longleftrightarrow> ?F"
    and 2: "\<forall>u. decision_draw Created rs = Some u \<and> \<not> u * 5 < 2 \<longrightarrow> st = Finished"
    and 3: "\<not> ?F \<longrightarrow> server_effects effs = []"
    and 4: "?F \<and> st = Finished \<longrightarrow>
       server_effects effs = [Request Server, Process_station Sell_food, Release Server]"
    by blast+
  have mem: "Process_station Sell_food \<in> set effs \<longleftrightarrow>
      Process_station Sell_food \<in> set (server_effects effs)"
    by (simp add: server_effects_def)
  have 5: "Process_station Sell_food \<in> set effs \<longrightarrow> ?F"
    using 3 mem by auto
  have 6: "st = Finished \<longrightarrow> (Process_station Sell_food \<in> set effs \<longleftrightarrow> ?F)"
    using 4 5 mem by auto
  have 7: "st = Finished \<longrightarrow>
      (server_effects effs = [Request Server, Process_station Sell_food, Release Server]
         \<longleftrightarrow> ?F)"
    using 3 4 by auto
  have 8: "\<forall>u. decision_draw Created rs = Some u \<and> \<not> u * 5 < 2 \<longrightarrow>
      st = Finished \<and> server_effects effs = []"
    using 2 3 by auto
  have 9: "\<forall>a now v. go_to_movies (At_server_request a) Send now v =
            ([Process_station Sell_food], At_sell_food a)"
    by simp
  have 10: "\<forall>u. random_choices food_list [4 / 10, 6 / 10] u =
              Inr [if u < 4 / 10 then ''food'' else ''no_food'']"
    by (simp add: choices_food)
  from 1 8 10 5 3 9 6 7 show ?thesis
    unfolding c by (intro conjI impI) blast+
qed

theorem server_requested_iff_food_witness:
  "run_moviegoer Created
     [(Send, 1, 0), (Send, 2, 0), (Send, 4, 0), (Send, 5, 0), (Send, 11 / 2, 1 / 4),
      (Send, 6, 0), (Send, 17 / 2, 0)] =
     ([Request Cashier, Process_station Purchase_ticket, Release Cashier, Request Usher,
       Process_station Check_ticket, Release Usher, Request Server,
       Process_station Sell_food, Release Server, Append (15 / 2)], Finished) \<and>
   decision_draw Created
     [(Send, 1, 0), (Send, 2, 0), (Send, 4, 0), (Send, 5, 0), (Send, 11 / 2, 1 / 4),
      (Send, 6, 0), (Send, 17 / 2, 0)] = Some (1 / 4) \<and>
   random_choices food_list [4 / 10, 6 / 10] (1 / 4) = Inr [''food''] \<and>
   server_effects
     [Request Cashier, Process_station Purchase_ticket, Release Cashier, Request Usher,
       Process_station Check_ticket, Release Usher, Request Server,
       Process_station Sell_food, Release Server, Append (15 / 2)] =
     [Request Server, Process_station Sell_food, Release Server] \<and>
   run_moviegoer Created
     [(Send, 1, 0), (Send, 2, 0), (Send, 4, 0), (Send, 5, 0), (Send, 11 / 2, 1 / 2)] =
     ([Request Cashier, Process_station Purchase_ticket, Release Cashier, Request Usher,
       Process_station Check_ticket, Release Usher, Append (9 / 2)], Finished) \<and>
   random_choices food_list [4 / 10, 6 / 10] (1 / 2) = Inr [''no_food'']"
proof -
  have run: "run_moviegoer Created
     [(Send, 1, 0), (Send, 2, 0), (Send, 4, 0), (Send, 5, 0), (Send, 11 / 2, 1 / 4),
      (Send, 6, 0), (Send, 17 / 2, 0)] =
     ([Request Cashier, Process_station Purchase_ticket, Release Cashier, Request Usher,
       Process_station Check_ticket, Release Usher, Request Server,
       Process_station Sell_food, Release Server, Append (15 / 2)], Finished)"
    by (simp add: choices_food)
  have run2: "run_moviegoer Created
     [(Send, 1, 0), (Send, 2, 0), (Send, 4, 0), (Send, 5, 0), (Send, 11 / 2, 1 / 2)] =
     ([Request Cashier, Process_station Purchase_ticket, Release Cashier, Request Usher,
       Process_station Check_ticket, Release Usher, Append (9 / 2)], Finished)"
    by (simp add: choices_food)
  have dd: "decision_draw Created
     [(Send, 1, 0), (Send, 2, 0), (Send, 4, 0), (Send, 5, 0), (Send, 11 / 2, 1 / 4),
      (Send, 6, 0), (Send, 17 / 2, 0)] = Some (1 / 4)"
    by simp
  from server_requested_iff_food [OF run] server_requested_iff_food [OF run2] run run2 dd
  show ?thesis
    by (simp add: choices_food server_effects_def)
qed

subsection \<open>The stations\<close>

text \<open>
  Claim C7. After its cashier request is granted the moviegoer starts \<open>purchase_ticket\<close>
  and waits for it; that process suspends for \<open>1 + 2 * u\<close> time units, where \<open>u\<close> is
  the draw of \<open>random.random()\<close> from \<open>[0, 1)\<close>. So the delay is at least 1 and at most 3,
  and it is uniform on the interval: the draws that put it into a subinterval
  \<open>[c, d]\<close> of \<open>[1, 3]\<close> are those between \<open>(c - 1) / (3 - 1)\<close> and \<open>(d - 1) / (3 - 1)\<close>.
\<close>

theorem purchase_ticket_delay:
  "go_to_movies (At_cashier_request a) Send now v =
     ([Process_station Purchase_ticket], At_purchase_ticket a) \<and>
   station_event Purchase_ticket u = Timeout (1 + 2 * u) \<and>
   (0 \<le> u \<and> u < 1 \<longrightarrow>
      (\<exists>d. station_event Purchase_ticket u = Timeout d \<and> 1 \<le> d \<and> d \<le> 3)) \<and>
   (1 \<le> c \<and> c \<le> d \<and> d \<le> 3 \<longrightarrow>
      {u. 0 \<le> u \<and> u < 1 \<and>
          (\<exists>t. station_event Purchase_ticket u = Timeout t \<and> c \<le> t \<and> t \<le> d)} =
      {u. (c - 1) / (3 - 1) \<le> u \<and> u \<le> (d - 1) / (3 - 1) \<and> u < 1})"
  by (auto simp: purchase_ticket_def random_uniform_def field_simps)

theorem purchase_ticket_delay_witness:
  "(0::rat) \<le> 1 / 4 \<and> (1 / 4 :: rat) < 1 \<and>
   station_event Purchase_ticket (1 / 4) = Timeout (3 / 2) \<and>
   (1::rat) \<le> 3 / 2 \<and> (3 / 2 :: rat) \<le> 3"
  using purchase_ticket_delay [of 0 0 0 "1 / 4" 1 3] by simp

subsection \<open>The arrival generator\<close>

lemma resume_theater_loop:
  "resume_theater n (RT_timeout th m) =
     (concat (map (\<lambda>k. [Process_moviegoer (m + 1 + int k), Timeout (2 / 10)]) [0..<n]),
      RT_timeout th (m + int n))"
proof (induction n arbitrary: m)
  case 0
  then show ?case by simp
next
  case (Suc n)
  have upt: "[0..<Suc n] = 0 # map Suc [0..<n]"
    by (simp add: upt_conv_Cons map_Suc_upt del: upt_Suc)
  have step: "run_theater (RT_timeout th m) =
      ([Process_moviegoer (m + 1), Timeout (2 / 10)], RT_timeout th (m + 1))"
    by (simp add: Let_def)
  show ?case
    unfolding resume_theater.simps step upt
    by (simp add: Suc.IH [of "m + 1"] o_def add.assoc del: upt_Suc)
qed

lemma py_range_5: "py_range 5 = [0, 1, 2, 3, 4]"
  by (simp add: py_range_def upt_rec)

lemma Theater_positive:
  "0 < num_cashiers \<Longrightarrow> 0 < num_servers \<Longrightarrow> 0 < num_ushers \<Longrightarrow>
     Theater num_cashiers num_servers num_ushers =
       Inr \<lparr>cashier = num_cashiers, server = num_servers, usher = num_ushers\<rparr>"
  by (simp add: Theater_def Resource_def)

lemma Theater_invalid:
  "num_cashiers \<le> 0 \<or> num_servers \<le> 0 \<or> num_ushers \<le> 0 \<Longrightarrow>
     Theater num_cashiers num_servers num_ushers = Inl ValueError"
  by (auto simp: Theater_def Resource_def)

lemma resume_theater_raised: "resume_theater n (RT_raised e) = ([], RT_raised e)"
  by (induction n) auto

text \<open>With a capacity that is not positive the constructor of \<open>Theater\<close> fails on the first
  resumption; the generator ends there and starts no moviegoer.\<close>

lemma run_theater_invalid_capacity:
  "num_cashiers \<le> 0 \<or> num_servers \<le> 0 \<or> num_ushers \<le> 0 \<Longrightarrow>
     resume_theater (Suc n) (RT_created num_cashiers num_servers num_ushers) =
       ([], RT_raised ValueError)"
  by (simp add: Theater_invalid resume_theater_raised)

text \<open>
  Claim C1. In a run whose three capacities are positive (as a pool's capacity is), the
  first resumption of \<open>run_theater\<close> starts exactly the five moviegoers 0 to 4 and then
  suspends on a timeout of 0.2; each later resumption starts exactly one new moviegoer
  (the next number) and suspends on a timeout of 0.2 again. After any number of
  resumptions the generator is suspended at that timeout: it never ends.
\<close>

theorem run_theater_arrivals:
  assumes "0 < num_cashiers" "0 < num_servers" "0 < num_ushers"
  shows "resume_theater (Suc n) (RT_created num_cashiers num_servers num_ushers) =
     (map Process_moviegoer [0, 1, 2, 3, 4] @ [Timeout (2 / 10)] @
      concat (map (\<lambda>k. [Process_moviegoer (5 + int k), Timeout (2 / 10)]) [0..<n]),
      RT_timeout \<lparr>cashier = num_cashiers, server = num_servers, usher = num_ushers\<rparr>
        (4 + int n))"
  using assms by (simp add: Theater_positive py_range_5 resume_theater_loop Let_def)

theorem run_theater_arrivals_witness:
  "(0::int) < 3 \<and> (0::int) < 2 \<and> (0::int) < 1 \<and>
   resume_theater 3 (RT_created 3 2 1) =
     ([Process_moviegoer 0, Process_moviegoer 1, Process_moviegoer 2, Process_moviegoer 3,
       Process_moviegoer 4, Timeout (2 / 10),
       Process_moviegoer 5, Timeout (2 / 10),
       Process_moviegoer 6, Timeout (2 / 10)],
      RT_timeout \<lparr>cashier = 3, server = 2, usher = 1\<rparr> 6)"
  using run_theater_arrivals [of 3 2 1 "Suc (Suc 0)"]
  by (simp add: numeral_3_eq_3)

subsection \<open>The resource pool\<close>

lemma pool_step_bounds:
  assumes "pool_step p x = Inr (ev, p')"
    and "0 \<le> held_count p" "held_count p \<le> capacity p"
  shows "capacity p' = capacity p \<and> 0 \<le> held_count p' \<and> held_count p' \<le> capacity p'"
  using assms
  by (cases x)
    (auto simp: acquire_def release_def Let_def split: if_splits list.splits)

lemma pool_states_Cons:
  "q \<in> set (pool_states p (x # ops)) \<Longrightarrow> q \<noteq> p \<Longrightarrow>
     \<exists>ev p'. pool_step p x = Inr (ev, p') \<and> q \<in> set (pool_states p' ops)"
  by (cases "pool_step p x") auto


lemma pool_states_bounds:
  "0 \<le> held_count p \<Longrightarrow> held_count p \<le> capacity p \<Longrightarrow> q \<in> set (pool_states p ops) \<Longrightarrow>
     capacity q = capacity p \<and> 0 \<le> held_count q \<and> held_count q \<le> capacity q"
proof (induction ops arbitrary: p)
  case Nil
  then show ?case by simp
next
  case (Cons x ops)
  show ?case
  proof (cases "q = p")
    case True
    with Cons.prems(1,2) show ?thesis by simp
  next
    case False
    from pool_states_Cons [OF Cons.prems(3) False]
    obtain ev p' where step: "pool_step p x = Inr (ev, p')"
      and q: "q \<in> set (pool_states p' ops)"
      by blast
    from pool_step_bounds [OF step Cons.prems(1,2)]
    have b: "capacity p' = capacity p" "0 \<le> held_count p'" "held_count p' \<le> capacity p'"
      by simp_all
    from Cons.IH [OF b(2,3) q] b(1) show ?thesis by simp
  qed
qed

text \<open>
  Claim C3. Whatever acquire and release operations are applied to a pool created with
  a positive capacity \<open>C\<close>, every state the run goes through has capacity \<open>C\<close> and
  \<open>0 \<le> held_count \<le> C\<close>.
\<close>

theorem held_count_within_capacity:
  assumes "0 < C"
  shows "\<forall>q \<in> set (pool_states (new_pool C) ops).
           capacity q = C \<and> 0 \<le> held_count q \<and> held_count q \<le> C"
proof
  fix q assume q: "q \<in> set (pool_states (new_pool C) ops)"
  have "0 \<le> held_count (new_pool C)" "held_count (new_pool C) \<le> capacity (new_pool C)"
    using assms by (simp_all add: new_pool_def)
  from pool_states_bounds [OF this q]
  show "capacity q = C \<and> 0 \<le> held_count q \<and> held_count q \<le> C"
    by (simp add: new_pool_def)
qed


theorem held_count_within_capacity_witness:
  "(0::int) < 1 \<and>
   pool_states (new_pool 1) [Op_acquire 7, Op_acquire 8, Op_release, Op_release, Op_release] =
     [\<lparr>capacity = 1, held_count = 0, wait_queue = []\<rparr>,
      \<lparr>capacity = 1, held_count = 1, wait_queue = []\<rparr>,
      \<lparr>capacity = 1, held_count = 1, wait_queue = [8]\<rparr>,
      \<lparr>capacity = 1, held_count = 1, wait_queue = []\<rparr>,
      \<lparr>capacity = 1, held_count = 0, wait_queue = []\<rparr>] \<and>
   \<lparr>capacity = 1, held_count = 1, wait_queue = [8]\<rparr> \<in>
     set (pool_states (new_pool 1)
       [Op_acquire 7, Op_acquire 8, Op_release, Op_release, Op_release]) \<and>
   held_count \<lparr>capacity = 1, held_count = 1, wait_queue = [8]\<rparr> \<le> 1"
proof -
  have pos: "(0::int) < 1" by simp
  have st: "pool_states (new_pool 1)
      [Op_acquire 7, Op_acquire 8, Op_release, Op_release, Op_release] =
     [\<lparr>capacity = 1, held_count = 0, wait_queue = []\<rparr>,
      \<lparr>capacity = 1, held_count = 1, wait_queue = []\<rparr>,
      \<lparr>capacity = 1, held_count = 1, wait_queue = [8]\<rparr>,
      \<lparr>capacity = 1, held_count = 1, wait_queue = []\<rparr>,
      \<lparr>capacity = 1, held_count = 0, wait_queue = []\<rparr>]"
    by (simp add: new_pool_def acquire_def release_def)
  have mem: "\<lparr>capacity = 1, held_count = 1, wait_queue = [8]\<rparr> \<in>
     set (pool_states (new_pool 1)
       [Op_acquire 7, Op_acquire 8, Op_release, Op_release, Op_release])"
    unfolding st by simp
  from bspec [OF held_count_within_capacity [OF pos] mem]
  have "held_count \<lparr>capacity = 1, held_count = 1, wait_queue = [8]\<rparr> \<le> 1"
    by blast
  with pos st mem show ?thesis by blast
qed

lemma pool_step_queue:
  assumes "pool_step p x = Inr (ev, p')"
  shows "handed_over [ev] @ wait_queue p' = wait_queue p @ enqueued [ev]"
  using assms
  by (cases x)
    (auto simp: acquire_def release_def Let_def split: if_splits list.splits)

lemma handed_over_Cons: "handed_over (ev # evs) = handed_over [ev] @ handed_over evs"
  by (cases ev) auto

lemma enqueued_Cons: "enqueued (ev # evs) = enqueued [ev] @ enqueued evs"
  by (cases ev) auto

lemma pool_run_queue:
  "pool_run p ops = Inr (tr, p') \<Longrightarrow>
     handed_over tr @ wait_queue p' = wait_queue p @ enqueued tr"
proof (induction ops arbitrary: p tr)
  case Nil
  then show ?case by simp
next
  case (Cons x ops)
  from Cons.prems obtain ev p1 evs where step: "pool_step p x = Inr (ev, p1)"
    and rest: "pool_run p1 ops = Inr (evs, p')" and tr: "tr = ev # evs"
    by (auto split: sum.splits prod.splits)
  have "handed_over tr @ wait_queue p' = handed_over [ev] @ (handed_over evs @ wait_queue p')"
    unfolding tr by (subst handed_over_Cons) simp
  also have "\<dots> = handed_over [ev] @ (wait_queue p1 @ enqueued evs)"
    using Cons.IH [OF rest] by simp
  also have "\<dots> = (wait_queue p @ enqueued [ev]) @ enqueued evs"
    using pool_step_queue [OF step] by simp
  also have "\<dots> = wait_queue p @ enqueued tr"
    unfolding tr by (subst (2) enqueued_Cons) simp
  finally show ?case .
qed

lemma pool_step_full:
  assumes "pool_step p x = Inr (ev, p')"
    and "held_count p \<le> capacity p" "wait_queue p \<noteq> [] \<longrightarrow> held_count p = capacity p"
  shows "capacity p' = capacity p \<and> held_count p' \<le> capacity p' \<and>
         (wait_queue p' \<noteq> [] \<longrightarrow> held_count p' = capacity p')"
  using assms
  by (cases x)
    (auto simp: acquire_def release_def Let_def split: if_splits list.splits)

lemma pool_run_full:
  "pool_run p ops = Inr (tr, p') \<Longrightarrow> held_count p \<le> capacity p \<Longrightarrow>
   (wait_queue p \<noteq> [] \<longrightarrow> held_count p = capacity p) \<Longrightarrow>
     capacity p' = capacity p \<and> held_count p' \<le> capacity p' \<and>
     (wait_queue p' \<noteq> [] \<longrightarrow> held_count p' = capacity p')"
proof (induction ops arbitrary: p tr)
  case Nil
  then show ?case by simp
next
  case (Cons x ops)
  from Cons.prems(1) obtain ev p1 evs where step: "pool_step p x = Inr (ev, p1)"
    and rest: "pool_run p1 ops = Inr (evs, p')"
    by (auto split: sum.splits prod.splits)
  from pool_step_full [OF step Cons.prems(2,3)]
  have b: "capacity p1 = capacity p" "held_count p1 \<le> capacity p1"
    "wait_queue p1 \<noteq> [] \<longrightarrow> held_count p1 = capacity p1" by simp_all
  from Cons.IH [OF rest b(2,3)] b(1) show ?case by simp
qed

text \<open>
  Claim C4. In every run on a pool of positive capacity, the requests granted from the
  wait queue followed by those still waiting are the blocked requests in the order
  they were issued: the queue grants are an initial segment of the issue order, so of
  two blocked requests the earlier one is granted first. A request waits only while
  the pool is full, so no later request is granted at once over a waiter. A release
  grants the head of the queue and leaves the others in place, and an acquire that
  blocks goes to the tail.
\<close>

theorem waiters_granted_in_fifo_order:
  assumes "0 < C" "pool_run (new_pool C) ops = Inr (tr, p)"
  shows "handed_over tr @ wait_queue p = enqueued tr \<and>
         handed_over tr = take (length (handed_over tr)) (enqueued tr) \<and>
         (wait_queue p \<noteq> [] \<longrightarrow> held_count p = C) \<and>
         (\<forall>r waiting. wait_queue p = r # waiting \<longrightarrow>
            release p = Inr (Some r, p\<lparr>wait_queue := waiting\<rparr>)) \<and>
         (\<forall>r. wait_queue (snd (acquire p r)) =
            (if fst (acquire p r) then wait_queue p else wait_queue p @ [r]))"
proof -
  have eq: "handed_over tr @ wait_queue p = enqueued tr"
    using pool_run_queue [OF assms(2)] by (simp add: new_pool_def)
  have full: "capacity p = C" "wait_queue p \<noteq> [] \<longrightarrow> held_count p = C"
    using pool_run_full [OF assms(2)] assms(1) by (simp_all add: new_pool_def)
  have tk: "handed_over tr = take (length (handed_over tr)) (enqueued tr)"
    by (simp add: eq [symmetric])
  have rel: "release p = Inr (Some r, p\<lparr>wait_queue := waiting\<rparr>)"
    if "wait_queue p = r # waiting" for r waiting
    using that full assms(1) by (simp add: release_def)
  have acq: "wait_queue (snd (acquire p r)) =
            (if fst (acquire p r) then wait_queue p else wait_queue p @ [r])" for r
    by (simp add: acquire_def)
  from eq tk full(2) rel acq show ?thesis by blast
qed

theorem waiters_granted_in_fifo_order_witness:
  "(0::int) < 1 \<and>
   pool_run (new_pool 1) [Op_acquire 1, Op_acquire 2, Op_acquire 3, Op_release, Op_release] =
     Inr ([Granted 1, Enqueued 2, Enqueued 3, Handed_over 2, Handed_over 3],
          \<lparr>capacity = 1, held_count = 1, wait_queue = []\<rparr>) \<and>
   handed_over [Granted 1, Enqueued 2, Enqueued 3, Handed_over 2, Handed_over 3] = [2, 3] \<and>
   enqueued [Granted 1, Enqueued 2, Enqueued 3, Handed_over 2, Handed_over 3] = [2, 3]"
proof -
  have pos: "(0::int) < 1" by simp
  have run: "pool_run (new_pool 1)
      [Op_acquire 1, Op_acquire 2, Op_acquire 3, Op_release, Op_release] =
     Inr ([Granted 1, Enqueued 2, Enqueued 3, Handed_over 2, Handed_over 3],
          \<lparr>capacity = 1, held_count = 1, wait_queue = []\<rparr>)"
    by (simp add: new_pool_def acquire_def release_def)
  from waiters_granted_in_fifo_order [OF pos run] run show ?thesis by simp
qed

subsection \<open>The scheduler\<close>

text \<open>
  Claim C6. A timeout with a negative delay is rejected with \<open>InvalidDelay\<close> and leaves
  the scheduler as it was: the clock and the event queue are unchanged and the state
  of the calling process is what it was (it is not suspended).
\<close>

theorem negative_delay_rejected:
  assumes "delay < 0"
  shows "schedule_timeout s p delay = (Some InvalidDelay, s) \<and>
         clock (snd (schedule_timeout s p delay)) = clock s \<and>
         event_queue (snd (schedule_timeout s p delay)) = event_queue s \<and>
         state_of (snd (schedule_timeout s p delay)) p = state_of s p"
  using assms by (simp add: schedule_timeout_def)

theorem negative_delay_rejected_witness:
  "(- 1 :: rat) < 0 \<and>
   schedule_timeout
     \<lparr>clock = 3, event_queue = [], next_sequence_id = 0, state_of = (\<lambda>p. Running)\<rparr> 0 (- 1) =
     (Some InvalidDelay,
      \<lparr>clock = 3, event_queue = [], next_sequence_id = 0, state_of = (\<lambda>p. Running)\<rparr>)"
proof -
  have neg: "(- 1 :: rat) < 0" by simp
  from negative_delay_rejected [OF neg] neg show ?thesis by simp
qed

text \<open>A delay that is not negative is accepted: the event enters the queue at
  \<open>clock + delay\<close> and the process is suspended.\<close>

lemma enqueue_member: "e \<in> set (enqueue e q)"
  by (induction q) auto

lemma valid_delay_scheduled:
  assumes "0 \<le> delay"
  shows "fst (schedule_timeout s p delay) = None \<and>
         clock (snd (schedule_timeout s p delay)) = clock s \<and>
         \<lparr>scheduled_time = clock s + delay, sequence_id = next_sequence_id s, process = p\<rparr>
           \<in> set (event_queue (snd (schedule_timeout s p delay))) \<and>
         state_of (snd (schedule_timeout s p delay)) p = Suspended"
  using assms by (simp add: schedule_timeout_def enqueue_member)

subsection \<open>Reporting helpers\<close>

lemma statistics_mean_nonempty:
  "data \<noteq> [] \<Longrightarrow> statistics_mean data = Inr (sum_list data / of_nat (length data))"
  by (simp add: statistics_mean_def)

lemma calculate_wait_time_nonempty:
  "w \<noteq> [] \<Longrightarrow>
     calculate_wait_time w =
       Inr (of_int \<lfloor>sum_list w / of_nat (length w)\<rfloor>,
            (sum_list w / of_nat (length w) - of_int \<lfloor>sum_list w / of_nat (length w)\<rfloor>) * 60)"
  by (simp add: calculate_wait_time_def statistics_mean_def divmod_def)

text \<open>
  Claim C9. For a non-empty list of samples \<open>w\<close> with mean \<open>a\<close>, \<open>calculate_wait_time\<close>
  returns the pair \<open>(minutes, seconds)\<close> where \<open>minutes\<close> is the integer part
  (the floor) of \<open>a\<close>, \<open>seconds = (a - minutes) * 60\<close>, so that
  \<open>minutes + seconds / 60 = a\<close> and \<open>0 \<le> seconds < 60\<close>.
\<close>

theorem calculate_wait_time_minutes_seconds:
  assumes "w \<noteq> []"
  defines "a \<equiv> sum_list w / of_nat (length w)"
  shows "\<exists>minutes seconds.
           statistics_mean w = Inr a \<and>
           calculate_wait_time w = Inr (minutes, seconds) \<and>
           minutes = of_int \<lfloor>a\<rfloor> \<and>
           seconds = (a - minutes) * 60 \<and>
           minutes + seconds / 60 = a \<and>
           0 \<le> seconds \<and> seconds < 60"
proof -
  let ?m = "of_int \<lfloor>a\<rfloor> :: rat"
  let ?s = "(a - ?m) * 60"
  have lo: "?m \<le> a" by simp
  have hi: "a < ?m + 1" by linarith
  have "statistics_mean w = Inr a"
    using assms by (simp add: statistics_mean_nonempty)
  moreover have "calculate_wait_time w = Inr (?m, ?s)"
    using assms by (simp add: calculate_wait_time_nonempty)
  moreover have "?m + ?s / 60 = a" by (simp add: field_simps)
  moreover have "0 \<le> ?s" using lo by simp
  moreover have "?s < 60" using hi by simp
  ultimately show ?thesis by blast
qed

theorem calculate_wait_time_minutes_seconds_witness:
  "[5 / 2, 4 :: rat] \<noteq> [] \<and>
   calculate_wait_time [5 / 2, 4] = Inr (3, 15) \<and>
   statistics_mean [5 / 2, 4] = Inr (13 / 4)"
proof -
  have ne: "[5 / 2, 4 :: rat] \<noteq> []" by simp
  have fl: "\<lfloor>13 / 4 :: rat\<rfloor> = 3" by linarith
  from calculate_wait_time_minutes_seconds [OF ne] fl
  show ?thesis by auto
qed

text \<open>
  Claim C10. On the empty list both \<open>get_average_wait_time\<close> and
  \<open>calculate_wait_time\<close> fail with the \<open>StatisticsError\<close> of \<open>statistics.mean\<close>;
  each returns a value exactly when the sample list is non-empty.
\<close>

theorem wait_time_helpers_empty:
  "get_average_wait_time [] = Inl StatisticsError \<and>
   calculate_wait_time [] = Inl StatisticsError \<and>
   ((\<exists>v. get_average_wait_time w = Inr v) = (w \<noteq> [])) \<and>
   ((\<exists>v. calculate_wait_time w = Inr v) = (w \<noteq> [])) \<and>
   ((get_average_wait_time w = Inl StatisticsError) = (w = [])) \<and>
   ((calculate_wait_time w = Inl StatisticsError) = (w = []))"
  by (simp add: get_average_wait_time_def calculate_wait_time_def statistics_mean_def
      divmod_def)

end
